theory Spec2Isabelle
  imports Complex_Main "HOL-Library.Product_Lexorder" "HOL-Library.Multiset"
begin

section \<open>Calendar dates\<close>

text \<open>
  Both databases hold calendar dates: HiveSQL as \<^verbatim>\<open>datetime\<close> values, SQLite as
  \<^verbatim>\<open>'YYYY-MM-DD'\<close> text. A date is modelled as the triple (year, month, day); the
  lexicographic order on triples is the order of the ISO text that SQLite compares
  (four-digit years) and the order of the days. The time of day of \<^verbatim>\<open>created\<close> is left
  out: the year's range filter cuts at midnight and no query reads it.
\<close>

type_synonym date = "int \<times> int \<times> int"

definition leap_year :: "int \<Rightarrow> bool" where
  "leap_year y \<longleftrightarrow> (y mod 4 = 0 \<and> y mod 100 \<noteq> 0) \<or> y mod 400 = 0"

definition days_in_month :: "int \<Rightarrow> int \<Rightarrow> int" where
  "days_in_month y m =
     (if m = 2 then (if leap_year y then 29 else 28)
      else if m = 4 \<or> m = 6 \<or> m = 9 \<or> m = 11 then 30 else 31)"

fun next_day :: "date \<Rightarrow> date" where
  "next_day (y, m, d) =
     (if d < days_in_month y m then (y, m, d + 1)
      else if m < 12 then (y, m + 1, 1) else (y + 1, 1, 1))"

fun prev_day :: "date \<Rightarrow> date" where
  "prev_day (y, m, d) =
     (if 1 < d then (y, m, d - 1)
      else if 1 < m then (y, m - 1, days_in_month y (m - 1)) else (y - 1, 12, 31))"

text \<open>Adding a number of days, as \<^verbatim>\<open>DATEADD(DAY, n, d)\<close> and SQLite's
  \<^verbatim>\<open>date(d, '+n days')\<close> do.\<close>

definition add_days :: "int \<Rightarrow> date \<Rightarrow> date" where
  "add_days n d = (if 0 \<le> n then (next_day ^^ nat n) d else (prev_day ^^ nat (- n)) d)"

text \<open>\<^verbatim>\<open>DATEFROMPARTS(y, m, d)\<close>, \<^verbatim>\<open>DATEPART(YEAR, d)\<close> and
  \<^verbatim>\<open>DATEADD(WEEK, n, d)\<close> of SQL Server.\<close>

definition DATEFROMPARTS :: "int \<Rightarrow> int \<Rightarrow> int \<Rightarrow> date" where
  "DATEFROMPARTS y m d = (y, m, d)"

definition DATEPART_YEAR :: "date \<Rightarrow> int" where
  "DATEPART_YEAR d = fst d"

definition DATEADD_WEEK :: "int \<Rightarrow> date \<Rightarrow> date" where
  "DATEADD_WEEK n d = add_days (7 * n) d"


section \<open>Relational operators\<close>

text \<open>
  A table or an intermediate result is the list of its rows. \<^verbatim>\<open>GROUP BY\<close> forms one
  group per distinct key among the rows, each group holding the rows of that key, so a
  group is never empty. \<^verbatim>\<open>COUNT(*)\<close> is the length of the group,
  \<^verbatim>\<open>COUNT(DISTINCT e)\<close> the number of distinct values of \<^verbatim>\<open>e\<close>.
\<close>

definition GROUP_BY :: "('a \<Rightarrow> 'k) \<Rightarrow> 'a list \<Rightarrow> ('k \<times> 'a list) list" where
  "GROUP_BY f xs = map (\<lambda>k. (k, filter (\<lambda>x. f x = k) xs)) (remdups (map f xs))"

definition COUNT :: "'a list \<Rightarrow> int" where
  "COUNT g = int (length g)"

definition COUNT_DISTINCT :: "('a \<Rightarrow> 'b) \<Rightarrow> 'a list \<Rightarrow> int" where
  "COUNT_DISTINCT e g = int (length (remdups (map e g)))"

text \<open>\<^verbatim>\<open>SUM(e)\<close> inside a group (the group has a row, so the sum is not NULL).\<close>

definition SUM_int :: "('a \<Rightarrow> int) \<Rightarrow> 'a list \<Rightarrow> int" where
  "SUM_int e g = sum_list (map e g)"


section \<open>The yearly aggregation (fetchWeeklyStats)\<close>

text \<open>A row of HiveSQL's \<^verbatim>\<open>Comments\<close> table, which holds posts and comments alike:
  a post has an empty \<^verbatim>\<open>parent_author\<close>. Grouping and \<^verbatim>\<open>COUNT(DISTINCT author)\<close>
  compare authors by the one collation of the column; it is equality of names here.\<close>

record Comment =
  author :: string
  created :: date
  parent_author :: string

record UserWeeklyActivity =
  uwa_author :: string
  uwa_year :: int
  uwa_week :: int
  post_count :: int
  comment_count :: int

record UserWeeklyTotals =
  uwt_author :: string
  uwt_year :: int
  uwt_week :: int
  posts :: int
  comments :: int
  total_activity :: int

record WeeklyStats =
  year :: int
  week :: int
  week_start :: date
  total_users :: int
  total_posts :: int
  total_comments :: int
  ultra_active_users :: int
  very_active_users :: int
  active_users :: int
  occasional_users :: int
  low_activity_users :: int

text \<open>The date range of the \<^verbatim>\<open>WHERE\<close> clauses:
  \<^verbatim>\<open>created >= DATEFROMPARTS(@year, 1, 1) AND created < DATEFROMPARTS(@year + 1, 1, 1)\<close>.\<close>

definition in_year_range :: "int \<Rightarrow> Comment \<Rightarrow> bool" where
  "in_year_range yr c \<longleftrightarrow>
     DATEFROMPARTS yr 1 1 \<le> created c \<and> created c < DATEFROMPARTS (yr + 1) 1 1"

text \<open>
  The first common table expression: the posts counted per (author, year, week), then
  \<^verbatim>\<open>UNION ALL\<close> the comments counted likewise. \<^verbatim>\<open>DATEPART(WEEK, created)\<close> follows the
  session's week convention of the SQL Server; it is the parameter \<open>wk\<close>, so that every
  result below holds for each convention.
\<close>

definition user_weekly_activity :: "(date \<Rightarrow> int) \<Rightarrow> Comment list \<Rightarrow> int \<Rightarrow> UserWeeklyActivity list" where
  "user_weekly_activity wk cs yr =
     map (\<lambda>((a, y, w), g).
            \<lparr>uwa_author = a, uwa_year = y, uwa_week = w, post_count = COUNT g, comment_count = 0\<rparr>)
         (GROUP_BY (\<lambda>c. (author c, DATEPART_YEAR (created c), wk (created c)))
            (filter (\<lambda>c. parent_author c = [] \<and> in_year_range yr c) cs))
     @
     map (\<lambda>((a, y, w), g).
            \<lparr>uwa_author = a, uwa_year = y, uwa_week = w, post_count = 0, comment_count = COUNT g\<rparr>)
         (GROUP_BY (\<lambda>c. (author c, DATEPART_YEAR (created c), wk (created c)))
            (filter (\<lambda>c. parent_author c \<noteq> [] \<and> in_year_range yr c) cs))"

definition user_weekly_totals :: "UserWeeklyActivity list \<Rightarrow> UserWeeklyTotals list" where
  "user_weekly_totals uwa =
     map (\<lambda>((a, y, w), g).
            \<lparr>uwt_author = a, uwt_year = y, uwt_week = w,
             posts = SUM_int post_count g, comments = SUM_int comment_count g,
             total_activity = SUM_int post_count g + SUM_int comment_count g\<rparr>)
         (GROUP_BY (\<lambda>r. (uwa_author r, uwa_year r, uwa_week r)) uwa)"

text \<open>\<^verbatim>\<open>SUM(CASE WHEN c THEN 1 ELSE 0 END)\<close>.\<close>

definition SUM_CASE :: "('a \<Rightarrow> bool) \<Rightarrow> 'a list \<Rightarrow> int" where
  "SUM_CASE c g = SUM_int (\<lambda>r. if c r then 1 else 0) g"

definition weekly_aggregates :: "UserWeeklyTotals list \<Rightarrow> WeeklyStats list" where
  "weekly_aggregates uwt =
     map (\<lambda>((y, w), g).
            \<lparr>year = y, week = w,
             week_start = DATEADD_WEEK (w - 1) (DATEFROMPARTS y 1 1),
             total_users = COUNT_DISTINCT uwt_author g,
             total_posts = SUM_int posts g,
             total_comments = SUM_int comments g,
             ultra_active_users = SUM_CASE (\<lambda>r. 50 \<le> total_activity r) g,
             very_active_users = SUM_CASE (\<lambda>r. 20 \<le> total_activity r \<and> total_activity r < 50) g,
             active_users = SUM_CASE (\<lambda>r. 10 \<le> total_activity r \<and> total_activity r < 20) g,
             occasional_users = SUM_CASE (\<lambda>r. 3 \<le> total_activity r \<and> total_activity r < 10) g,
             low_activity_users = SUM_CASE (\<lambda>r. 1 \<le> total_activity r \<and> total_activity r < 3) g\<rparr>)
         (GROUP_BY (\<lambda>r. (uwt_year r, uwt_week r)) uwt)"

text \<open>The whole query, with its final \<^verbatim>\<open>ORDER BY year, week\<close>; the \<^verbatim>\<open>map\<close> of the
  TypeScript function copies each field and is the identity here.\<close>

definition fetchWeeklyStats :: "(date \<Rightarrow> int) \<Rightarrow> Comment list \<Rightarrow> int \<Rightarrow> WeeklyStats list" where
  "fetchWeeklyStats wk cs yr =
     sort_key (\<lambda>r. (year r, week r))
       (weekly_aggregates (user_weekly_totals (user_weekly_activity wk cs yr)))"


section \<open>The two stored tables\<close>

text \<open>
  The SQLite table \<^verbatim>\<open>weekly_stats\<close> is the list of its rows in the order in which a
  table scan meets them (by rowid). A row holds the columns of \<open>WeeklyStats\<close> and the
  column \<^verbatim>\<open>fetched_at\<close>, which the engine fills with the time of the write.
  \<^verbatim>\<open>INSERT OR REPLACE\<close> on the primary key (year, week) deletes the row of that key, if
  there is one, and adds the new row with a fresh rowid, at the end of the scan order.
\<close>

type_synonym weekly_stats_table = "(WeeklyStats \<times> nat) list"

definition insert_or_replace :: "nat \<Rightarrow> weekly_stats_table \<Rightarrow> WeeklyStats \<Rightarrow> weekly_stats_table" where
  "insert_or_replace now db row =
     filter (\<lambda>s. (year (fst s), week (fst s)) \<noteq> (year row, week row)) db @ [(row, now)]"

text \<open>The transaction of \<open>saveToDatabase\<close> runs the statement once per row, in order;
  \<open>now\<close> is the clock of the run.\<close>

definition saveToDatabase :: "nat \<Rightarrow> weekly_stats_table \<Rightarrow> WeeklyStats list \<Rightarrow> weekly_stats_table" where
  "saveToDatabase now db stats = foldl (insert_or_replace now) db stats"

text \<open>What the server's queries read of the table: the \<open>WeeklyStats\<close> columns.\<close>

definition weekly_stats_rows :: "weekly_stats_table \<Rightarrow> WeeklyStats list" where
  "weekly_stats_rows db = map fst db"

text \<open>The table \<^verbatim>\<open>price_history\<close>, keyed by the date, without its column
  \<^verbatim>\<open>fetched_at\<close>.\<close>

record PricePoint =
  date :: date
  coin :: string
  price_usd :: real

text \<open>
  The price ingestion (fetch-hive-price.ts). Of a day of the feed's answer only the
  time and the close are read; the answer itself is an argument, as is the conversion
  \<open>utc_date\<close> of a Unix time into the date of its ISO text. Days without a positive
  close are dropped; the text of a date is never empty, so the second filter of the
  source keeps every day.
\<close>

record HistoDay =
  time :: int
  close :: real

definition fetchDailyHistory :: "(int \<Rightarrow> date) \<Rightarrow> HistoDay list \<Rightarrow> (date \<times> real) list" where
  "fetchDailyHistory utc_date answer =
     map (\<lambda>d. (utc_date (time d), close d)) (filter (\<lambda>d. 0 < close d) answer)"

definition savePrices :: "PricePoint list \<Rightarrow> string \<Rightarrow> (date \<times> real) list \<Rightarrow> PricePoint list" where
  "savePrices db c prices =
     foldl (\<lambda>db p. filter (\<lambda>r. date r \<noteq> fst p) db
                       @ [\<lparr>date = fst p, coin = c, price_usd = snd p\<rparr>])
           db prices"


section \<open>JavaScript numbers\<close>

text \<open>
  Prices, averages and percentages are IEEE doubles in the program and real numbers
  here, so rounding error is left out. The values a division by zero produces are kept:
  a quotient is a \<open>number\<close>, which is finite, an infinity or NaN. The divisors of the
  program are averages and sums of counts, never the negative zero.
\<close>

datatype number = Num real | Infinity | NegInfinity | NaN

definition js_div :: "real \<Rightarrow> real \<Rightarrow> number" where
  "js_div a b =
     (if b \<noteq> 0 then Num (a / b)
      else if 0 < a then Infinity else if a < 0 then NegInfinity else NaN)"

fun js_times :: "number \<Rightarrow> real \<Rightarrow> number" where
  "js_times (Num x) c = Num (x * c)"
| "js_times Infinity c = (if 0 < c then Infinity else if c < 0 then NegInfinity else NaN)"
| "js_times NegInfinity c = (if 0 < c then NegInfinity else if c < 0 then Infinity else NaN)"
| "js_times NaN c = NaN"

text \<open>The truthiness test of \<^verbatim>\<open>x ? a : b\<close> on a number: zero and NaN are falsy.\<close>

fun truthy :: "number \<Rightarrow> bool" where
  "truthy (Num x) = (x \<noteq> 0)"
| "truthy Infinity = True"
| "truthy NegInfinity = True"
| "truthy NaN = False"

text \<open>\<^verbatim>\<open>Number(x.toFixed(d))\<close>: the nearest multiple of \<open>10\<^sup>-\<^sup>d\<close>, a tie going away
  from zero; from \<open>10\<^sup>2\<^sup>1\<close> on \<^verbatim>\<open>toFixed\<close> prints the number itself.\<close>

definition toFixed :: "nat \<Rightarrow> real \<Rightarrow> real" where
  "toFixed d x =
     (if 10 ^ 21 \<le> \<bar>x\<bar> then x
      else if x < 0 then - (of_int \<lfloor>- x * 10 ^ d + 1 / 2\<rfloor> / 10 ^ d)
      else of_int \<lfloor>x * 10 ^ d + 1 / 2\<rfloor> / 10 ^ d)"

fun Number_toFixed :: "nat \<Rightarrow> number \<Rightarrow> number" where
  "Number_toFixed d (Num x) = Num (toFixed d x)"
| "Number_toFixed d Infinity = Infinity"
| "Number_toFixed d NegInfinity = NegInfinity"
| "Number_toFixed d NaN = NaN"

definition Math_round :: "real \<Rightarrow> int" where
  "Math_round x = \<lfloor>x + 1 / 2\<rfloor>"

text \<open>A NULL of SQLite arrives as \<^verbatim>\<open>null\<close>, which arithmetic reads as 0.\<close>

definition ToNumber :: "int option \<Rightarrow> int" where
  "ToNumber v = (case v of None \<Rightarrow> 0 | Some n \<Rightarrow> n)"


section \<open>Aggregates over a whole table, ordering, row access\<close>

text \<open>Without \<^verbatim>\<open>GROUP BY\<close>, \<^verbatim>\<open>SUM\<close> and \<^verbatim>\<open>AVG\<close> over no rows are NULL.\<close>

definition SUM_all :: "int list \<Rightarrow> int option" where
  "SUM_all xs = (if xs = [] then None else Some (sum_list xs))"

definition AVG :: "real list \<Rightarrow> real option" where
  "AVG xs = (if xs = [] then None else Some (sum_list xs / real (length xs)))"

text \<open>\<^verbatim>\<open>AVG\<close> inside a group, which has a row.\<close>

definition AVG_group :: "real list \<Rightarrow> real" where
  "AVG_group xs = sum_list xs / real (length xs)"

text \<open>
  \<^verbatim>\<open>ORDER BY\<close> sorts by the key and SQL leaves the order of rows with equal keys to the
  engine; the model keeps such rows in scan order (a stable sort), as SQLite's sorter
  with a \<^verbatim>\<open>LIMIT\<close> does. A descending order is the ascending order of the negated key.
\<close>

definition ORDER_BY :: "('a \<Rightarrow> 'k::linorder) \<Rightarrow> 'a list \<Rightarrow> 'a list" where
  "ORDER_BY f xs = sort_key f xs"

definition LIMIT_OFFSET :: "nat \<Rightarrow> nat \<Rightarrow> 'a list \<Rightarrow> 'a list" where
  "LIMIT_OFFSET n off xs = take n (drop off xs)"

text \<open>\<^verbatim>\<open>.get()\<close> of a prepared statement: the first row, or \<^verbatim>\<open>null\<close>.\<close>

definition get :: "'a list \<Rightarrow> 'a option" where
  "get xs = (case xs of [] \<Rightarrow> None | x # _ \<Rightarrow> Some x)"


section \<open>The insight engine (server.ts)\<close>

text \<open>Where two interfaces of the source have a field of the same name, the fields of
  one of them carry a prefix here (\<open>y_\<close> for a row of the yearly query, \<open>yoy_\<close>,
  \<open>sum_\<close>, \<open>summary\<close>, \<open>insights\<close>) or the suffix \<open>Tier\<close>.\<close>

record WeeklyStatsRow = WeeklyStats +
  avg_price :: "real option"

text \<open>The join condition of \<open>getWeeklyStats\<close>: the seven days from \<^verbatim>\<open>week_start\<close>
  and the coin of the year.\<close>

definition price_matches :: "WeeklyStats \<Rightarrow> PricePoint \<Rightarrow> bool" where
  "price_matches ws ph \<longleftrightarrow>
     week_start ws \<le> date ph \<and> date ph < add_days 7 (week_start ws) \<and>
     ((year ws < 2020 \<and> coin ph = ''steem'') \<or> (2020 \<le> year ws \<and> coin ph = ''hive''))"

text \<open>The primary key makes each group of \<^verbatim>\<open>GROUP BY ws.year, ws.week\<close> the matches
  of one row of \<^verbatim>\<open>weekly_stats\<close>; a row without a match keeps a NULL average
  (\<^verbatim>\<open>LEFT JOIN\<close>).\<close>

definition getWeeklyStats :: "WeeklyStats list \<Rightarrow> PricePoint list \<Rightarrow> WeeklyStatsRow list" where
  "getWeeklyStats weekly_stats price_history =
     map (\<lambda>ws. \<lparr>year = year ws, week = week ws, week_start = week_start ws,
                 total_users = total_users ws, total_posts = total_posts ws,
                 total_comments = total_comments ws,
                 ultra_active_users = ultra_active_users ws,
                 very_active_users = very_active_users ws,
                 active_users = active_users ws,
                 occasional_users = occasional_users ws,
                 low_activity_users = low_activity_users ws,
                 avg_price = AVG (map price_usd (filter (price_matches ws) price_history))\<rparr>)
         (ORDER_BY (\<lambda>ws. (year ws, week ws)) weekly_stats)"

definition calculateCorrelation :: "real list \<Rightarrow> real list \<Rightarrow> real" where
  "calculateCorrelation x y =
     (let n = length x in
      if n = 0 \<or> length x \<noteq> length y then 0
      else
        let sumX = foldl (\<lambda>a b. a + b) 0 x;
            sumY = foldl (\<lambda>a b. a + b) 0 y;
            sumXY = foldl (\<lambda>a (xi, i). a + xi * (if i < length y then y ! i else 0)) 0
                      (zip x [0..<length x]);
            sumX2 = foldl (\<lambda>a xi. a + xi * xi) 0 x;
            sumY2 = foldl (\<lambda>a yi. a + yi * yi) 0 y;
            numerator = real n * sumXY - sumX * sumY;
            denominator = sqrt ((real n * sumX2 - sumX * sumX) * (real n * sumY2 - sumY * sumY))
        in if denominator = 0 then 0 else numerator / denominator)"

record SummaryRow =
  total_weeks :: int
  total_user_weeks :: "int option"
  sum_total_posts :: "int option"
  sum_total_comments :: "int option"
  avg_weekly_users :: "real option"

definition summaryRow :: "WeeklyStats list \<Rightarrow> SummaryRow" where
  "summaryRow weekly_stats =
     \<lparr>total_weeks = COUNT weekly_stats,
      total_user_weeks = SUM_all (map total_users weekly_stats),
      sum_total_posts = SUM_all (map total_posts weekly_stats),
      sum_total_comments = SUM_all (map total_comments weekly_stats),
      avg_weekly_users = AVG (map (\<lambda>w. real_of_int (total_users w)) weekly_stats)\<rparr>"

definition peakRow :: "WeeklyStats list \<Rightarrow> WeeklyStats option" where
  "peakRow weekly_stats = get (LIMIT_OFFSET 1 0 (ORDER_BY (\<lambda>w. - total_users w) weekly_stats))"

definition lastCompleteWeekRow :: "WeeklyStats list \<Rightarrow> WeeklyStats option" where
  "lastCompleteWeekRow weekly_stats =
     get (LIMIT_OFFSET 1 1 (ORDER_BY (\<lambda>w. (- year w, - week w)) weekly_stats))"

record YearRow =
  y_year :: int
  y_avg_weekly_users :: real
  y_total_posts :: int
  y_total_comments :: int

definition yearRows :: "WeeklyStats list \<Rightarrow> YearRow list" where
  "yearRows weekly_stats =
     ORDER_BY y_year
       (map (\<lambda>(y, g). \<lparr>y_year = y,
                        y_avg_weekly_users = AVG_group (map (\<lambda>w. real_of_int (total_users w)) g),
                        y_total_posts = SUM_int total_posts g,
                        y_total_comments = SUM_int total_comments g\<rparr>)
            (GROUP_BY year weekly_stats))"

record YearOverYear =
  yoy_year :: int
  avgWeeklyUsers :: int
  avgPrice :: "real option"
  totalPosts :: int
  totalComments :: int
  changePercent :: "number option"

text \<open>\<^verbatim>\<open>strftime('%Y', date)\<close> compared with \<^verbatim>\<open>String(row.year)\<close>: the year of the date.\<close>

definition strftime_Y :: "date \<Rightarrow> int" where
  "strftime_Y d = fst d"

definition yearOverYear_entry :: "PricePoint list \<Rightarrow> YearRow list \<Rightarrow> YearRow \<Rightarrow> nat \<Rightarrow> YearOverYear" where
  "yearOverYear_entry price_history yrs row i =
     (let priceRow_avg_price =
            AVG (map price_usd (filter (\<lambda>p. strftime_Y (date p) = y_year row) price_history));
          prevYear = (if 0 < i then Some (yrs ! (i - 1)) else None);
          change = (case prevYear of
                      Some prev \<Rightarrow>
                        Some (js_times (js_div (y_avg_weekly_users row - y_avg_weekly_users prev)
                                               (y_avg_weekly_users prev)) 100)
                    | None \<Rightarrow> None)
      in \<lparr>yoy_year = y_year row,
          avgWeeklyUsers = Math_round (y_avg_weekly_users row),
          avgPrice = (case priceRow_avg_price of
                        Some a \<Rightarrow> if a \<noteq> 0 then Some (toFixed 4 a) else None
                      | None \<Rightarrow> None),
          totalPosts = y_total_posts row,
          totalComments = y_total_comments row,
          changePercent = (case change of
                             Some c \<Rightarrow> if truthy c then Some (Number_toFixed 1 c) else None
                           | None \<Rightarrow> None)\<rparr>)"

definition yearOverYear :: "WeeklyStats list \<Rightarrow> PricePoint list \<Rightarrow> YearOverYear list" where
  "yearOverYear weekly_stats price_history =
     (let yrs = yearRows weekly_stats
      in map (\<lambda>(row, i). yearOverYear_entry price_history yrs row i) (zip yrs [0..<length yrs]))"

text \<open>The correlation of the weekly price average with the weekly users.\<close>

definition dataWithPrice :: "WeeklyStatsRow list \<Rightarrow> WeeklyStatsRow list" where
  "dataWithPrice weeklyStats =
     filter (\<lambda>w. case avg_price w of None \<Rightarrow> False | Some p \<Rightarrow> 0 < p) weeklyStats"

definition correlation :: "WeeklyStatsRow list \<Rightarrow> real" where
  "correlation weeklyStats =
     (let prices = map (\<lambda>w. case avg_price w of Some p \<Rightarrow> p | None \<Rightarrow> 0) (dataWithPrice weeklyStats);
          users = map (\<lambda>w. real_of_int (total_users w)) (dataWithPrice weeklyStats)
      in calculateCorrelation prices users)"

definition correlationDesc :: "real \<Rightarrow> string" where
  "correlationDesc c =
     (if 0.7 < c then ''Strong positive correlation - price and users move together''
      else if 0.4 < c then ''Moderate positive correlation''
      else if 0.2 < c then ''Weak positive correlation''
      else if c < - 0.7 then ''Strong negative correlation - inverse relationship''
      else if c < - 0.4 then ''Moderate negative correlation''
      else if c < - 0.2 then ''Weak negative correlation''
      else ''No significant correlation'')"

record TierRow =
  ultra :: "int option"
  very :: "int option"
  active :: "int option"
  occasional :: "int option"
  low :: "int option"

definition tierRow :: "WeeklyStats list \<Rightarrow> TierRow" where
  "tierRow weekly_stats =
     \<lparr>ultra = SUM_all (map ultra_active_users weekly_stats),
      very = SUM_all (map very_active_users weekly_stats),
      active = SUM_all (map active_users weekly_stats),
      occasional = SUM_all (map occasional_users weekly_stats),
      low = SUM_all (map low_activity_users weekly_stats)\<rparr>"

definition totalTiers :: "TierRow \<Rightarrow> int" where
  "totalTiers t = ToNumber (ultra t) + ToNumber (very t) + ToNumber (active t)
                  + ToNumber (occasional t) + ToNumber (low t)"

record ActivityDistribution =
  ultraActive :: number
  veryActive :: number
  activeTier :: number
  occasionalTier :: number
  lowActivity :: number

definition tier_percent :: "int option \<Rightarrow> int \<Rightarrow> number" where
  "tier_percent v tot =
     Number_toFixed 1 (js_times (js_div (real_of_int (ToNumber v)) (real_of_int tot)) 100)"

definition activityDistribution :: "WeeklyStats list \<Rightarrow> ActivityDistribution" where
  "activityDistribution weekly_stats =
     (let t = tierRow weekly_stats; tot = totalTiers t
      in \<lparr>ultraActive = tier_percent (ultra t) tot,
          veryActive = tier_percent (very t) tot,
          activeTier = tier_percent (active t) tot,
          occasionalTier = tier_percent (occasional t) tot,
          lowActivity = tier_percent (low t) tot\<rparr>)"

record Summary =
  totalWeeks :: int
  totalUserWeeks :: "int option"
  summaryPosts :: "int option"
  summaryComments :: "int option"
  summaryAvgWeeklyUsers :: int
  peakWeeklyUsers :: int
  peakWeekDate :: date
  lastCompleteWeekUsers :: int
  lastCompleteWeekDate :: date

record Insights =
  insightsYearOverYear :: "YearOverYear list"
  priceUserCorrelation :: real
  description :: string
  insightsActivityDistribution :: ActivityDistribution

record StatsResponse =
  weeklyStats :: "WeeklyStatsRow list"
  summary :: Summary
  insights :: Insights

text \<open>
  Reading a field of a \<^verbatim>\<open>null\<close> row throws a \<open>TypeError\<close>, the one failure of
  \<open>getStats\<close>. \<open>InsufficientData\<close> is the condition that the specification names for a
  store of fewer than two weeks; it is here to state that no path raises it.
\<close>

datatype error = TypeError | InsufficientData

text \<open>The response is built field by field: the peak row is read first, the last
  complete week after it, the insights last.\<close>

definition getStats :: "WeeklyStats list \<Rightarrow> PricePoint list \<Rightarrow> error + StatsResponse" where
  "getStats weekly_stats price_history =
     (let ws = getWeeklyStats weekly_stats price_history;
          s = summaryRow weekly_stats;
          c = correlation ws
      in case peakRow weekly_stats of
           None \<Rightarrow> Inl TypeError
         | Some peak \<Rightarrow>
             (case lastCompleteWeekRow weekly_stats of
                None \<Rightarrow> Inl TypeError
              | Some lcw \<Rightarrow>
                  Inr \<lparr>weeklyStats = ws,
                       summary =
                         \<lparr>totalWeeks = total_weeks s,
                          totalUserWeeks = total_user_weeks s,
                          summaryPosts = sum_total_posts s,
                          summaryComments = sum_total_comments s,
                          summaryAvgWeeklyUsers =
                            (case avg_weekly_users s of None \<Rightarrow> 0 | Some a \<Rightarrow> Math_round a),
                          peakWeeklyUsers = total_users peak,
                          peakWeekDate = week_start peak,
                          lastCompleteWeekUsers = total_users lcw,
                          lastCompleteWeekDate = week_start lcw\<rparr>,
                       insights =
                         \<lparr>insightsYearOverYear = yearOverYear weekly_stats price_history,
                          priceUserCorrelation = toFixed 3 c,
                          description = correlationDesc c,
                          insightsActivityDistribution = activityDistribution weekly_stats\<rparr>\<rparr>))"



section \<open>Accounts of a week, and a small ledger\<close>

text \<open>Following the specification's words: the distinct accounts with at least one
  action of the fetched year in week \<open>w\<close> of year \<open>y\<close>.\<close>

definition accounts_of_week :: "(date \<Rightarrow> int) \<Rightarrow> Comment list \<Rightarrow> int \<Rightarrow> int \<Rightarrow> int \<Rightarrow> string list" where
  "accounts_of_week wk cs yr y w =
     remdups (map author
       (filter (\<lambda>c. in_year_range yr c \<and> DATEPART_YEAR (created c) = y \<and> wk (created c) = w) cs))"


text \<open>\<^verbatim>\<open>DATEPART(WEEK, d)\<close> on the days of January 2023 under the server's default
  first day of the week: 1 January 2023 is a Sunday, so the weeks are the days 1 to 7,
  8 to 14 and so on.\<close>

definition january_week :: "date \<Rightarrow> int" where
  "january_week d = (snd (snd d) + 6) div 7"

definition example_comments :: "Comment list" where
  "example_comments =
     [\<lparr>author = ''alice'', created = (2023, 1, 2), parent_author = []\<rparr>,
      \<lparr>author = ''bob'', created = (2023, 1, 3), parent_author = ''alice''\<rparr>,
      \<lparr>author = ''bob'', created = (2023, 1, 4), parent_author = ''alice''\<rparr>,
      \<lparr>author = ''bob'', created = (2023, 1, 7), parent_author = ''carol''\<rparr>,
      \<lparr>author = ''carol'', created = (2023, 1, 10), parent_author = []\<rparr>,
      \<lparr>author = ''dave'', created = (2022, 12, 31), parent_author = []\<rparr>]"

definition example_week1 :: WeeklyStats where
  "example_week1 =
     \<lparr>year = 2023, week = 1, week_start = (2023, 1, 1), total_users = 2, total_posts = 1,
      total_comments = 3, ultra_active_users = 0, very_active_users = 0, active_users = 0,
      occasional_users = 1, low_activity_users = 1\<rparr>"

definition example_week2 :: WeeklyStats where
  "example_week2 =
     \<lparr>year = 2023, week = 2, week_start = (2023, 1, 8), total_users = 1, total_posts = 1,
      total_comments = 0, ultra_active_users = 0, very_active_users = 0, active_users = 0,
      occasional_users = 0, low_activity_users = 1\<rparr>"


section \<open>The specification's wording, and example stores\<close>

text \<open>The primary key of \<^verbatim>\<open>weekly_stats\<close>.\<close>

definition row_key :: "WeeklyStats \<Rightarrow> int \<times> int" where
  "row_key r = (year r, week r)"






text \<open>Following the specification's words: the Pearson coefficient of two vectors,
  0 when the denominator is 0.\<close>

definition pearson_r :: "real list \<Rightarrow> real list \<Rightarrow> real" where
  "pearson_r x y =
     (let n = real (length x);
          sx = sum_list x; sy = sum_list y;
          sxy = sum_list (map2 (\<lambda>a b. a * b) x y);
          sxx = sum_list (map (\<lambda>a. a\<^sup>2) x);
          syy = sum_list (map (\<lambda>b. b\<^sup>2) y);
          den = sqrt ((n * sxx - sx\<^sup>2) * (n * syy - sy\<^sup>2))
      in if den = 0 then 0 else (n * sxy - sx * sy) / den)"

definition has_price :: "WeeklyStatsRow \<Rightarrow> bool" where
  "has_price w \<longleftrightarrow> avg_price w \<noteq> None"

text \<open>The coefficient over the weeks whose price average exists, and over the weeks
  whose price average exists and is positive.\<close>

definition pearson_over_priced_weeks :: "WeeklyStatsRow list \<Rightarrow> real" where
  "pearson_over_priced_weeks rows =
     pearson_r (List.map_filter avg_price rows)
               (map (\<lambda>w. real_of_int (total_users w)) (filter has_price rows))"

definition pearson_over_positive_weeks :: "WeeklyStatsRow list \<Rightarrow> real" where
  "pearson_over_positive_weeks rows =
     pearson_r (filter (\<lambda>p. 0 < p) (List.map_filter avg_price rows))
               (map (\<lambda>w. real_of_int (total_users w))
                    (filter (\<lambda>w. \<exists>p. avg_price w = Some p \<and> 0 < p) rows))"




text \<open>A stored week of \<open>n\<close> users, each with one post.\<close>

definition low_week :: "int \<Rightarrow> int \<Rightarrow> date \<Rightarrow> int \<Rightarrow> WeeklyStats" where
  "low_week y w d n =
     \<lparr>year = y, week = w, week_start = d, total_users = n, total_posts = n,
      total_comments = 0, ultra_active_users = 0, very_active_users = 0, active_users = 0,
      occasional_users = 0, low_activity_users = n\<rparr>"

definition steady_weeks :: "WeeklyStats list" where
  "steady_weeks = [low_week 2019 10 (2019, 3, 5) 10, low_week 2020 10 (2020, 3, 4) 8,
                   low_week 2020 11 (2020, 3, 11) 12]"










definition week_2020 :: WeeklyStats where
  "week_2020 = low_week 2020 1 (2020, 1, 1) 5"

definition week_2021 :: WeeklyStats where
  "week_2021 = low_week 2021 1 (2021, 1, 1) 5"

definition tied_weeks :: "WeeklyStats list" where
  "tied_weeks = [low_week 2019 5 (2019, 1, 29) 9, low_week 2020 1 (2020, 1, 1) 12,
                 low_week 2020 2 (2020, 1, 8) 12]"

definition only_week :: "WeeklyStats list" where
  "only_week = [low_week 2024 7 (2024, 2, 12) 120]"

text \<open>The specification's scenario: three weeks of 100, 150 and 120 users, stored
  out of order.\<close>

definition scenario_weeks :: "WeeklyStats list" where
  "scenario_weeks = [low_week 2024 3 (2024, 1, 15) 120, low_week 2024 1 (2024, 1, 1) 100,
                     low_week 2024 2 (2024, 1, 8) 150]"




section \<open>Facts about grouping\<close>

lemma GROUP_BY_member:
  assumes "(k, g) \<in> set (GROUP_BY f xs)"
  shows "g = filter (\<lambda>x. f x = k) xs" and "g \<noteq> []" and "k \<in> f ` set xs"
proof -
  from assms have k: "k \<in> set (map f xs)" and g: "g = filter (\<lambda>x. f x = k) xs"
    by (auto simp: GROUP_BY_def)
  show "g = filter (\<lambda>x. f x = k) xs" by (rule g)
  from k obtain x where "x \<in> set xs" "f x = k" by auto
  then have "x \<in> set g" by (simp add: g)
  then show "g \<noteq> []" by auto
  from k show "k \<in> f ` set xs" by simp
qed

lemma GROUP_BY_keys_distinct: "distinct (map fst (GROUP_BY f xs))"
  by (simp add: GROUP_BY_def comp_def)

lemma GROUP_BY_keys: "fst ` set (GROUP_BY f xs) = f ` set xs"
  by (auto simp: GROUP_BY_def image_iff)

lemma uwa_keys:
  "(\<lambda>r. (uwa_author r, uwa_year r, uwa_week r)) ` set (user_weekly_activity wk cs yr)
   = (\<lambda>c. (author c, DATEPART_YEAR (created c), wk (created c))) ` {c \<in> set cs. in_year_range yr c}"
  (is "?K ` _ = ?C ` _")
proof -
  let ?P = "filter (\<lambda>c. parent_author c = [] \<and> in_year_range yr c) cs"
  let ?Q = "filter (\<lambda>c. parent_author c \<noteq> [] \<and> in_year_range yr c) cs"
  have "?K ` set (user_weekly_activity wk cs yr)
        = fst ` set (GROUP_BY ?C ?P) \<union> fst ` set (GROUP_BY ?C ?Q)"
    unfolding user_weekly_activity_def by (force simp: image_iff)
  also have "\<dots> = ?C ` set ?P \<union> ?C ` set ?Q" by (simp only: GROUP_BY_keys)
  also have "\<dots> = ?C ` {c \<in> set cs. in_year_range yr c}" by auto
  finally show ?thesis .
qed

lemma uwt_keys:
  "(\<lambda>r. (uwt_author r, uwt_year r, uwt_week r)) ` set (user_weekly_totals uwa)
   = (\<lambda>r. (uwa_author r, uwa_year r, uwa_week r)) ` set uwa"
proof -
  have "(\<lambda>r. (uwt_author r, uwt_year r, uwt_week r)) ` set (user_weekly_totals uwa)
        = fst ` set (GROUP_BY (\<lambda>r. (uwa_author r, uwa_year r, uwa_week r)) uwa)"
    unfolding user_weekly_totals_def by (force simp: image_iff)
  then show ?thesis by (simp only: GROUP_BY_keys)
qed


section \<open>The rows of the yearly aggregation\<close>

lemma GROUP_BY_COUNT_pos: "(k, g) \<in> set (GROUP_BY f xs) \<Longrightarrow> 1 \<le> COUNT g"
  using GROUP_BY_member(2) [of k g f xs] by (cases g) (simp_all add: COUNT_def)

lemma uwa_counts:
  assumes "r \<in> set (user_weekly_activity wk cs yr)"
  shows "0 \<le> post_count r" and "0 \<le> comment_count r" and "1 \<le> post_count r + comment_count r"
  using assms by (auto simp: user_weekly_activity_def COUNT_def dest: GROUP_BY_COUNT_pos)

lemma SUM_int_add: "SUM_int e g + SUM_int e' g = SUM_int (\<lambda>x. e x + e' x) g"
  by (induction g) (simp_all add: SUM_int_def)

lemma SUM_int_ge_COUNT:
  assumes "\<forall>x \<in> set g. 1 \<le> e x"
  shows "COUNT g \<le> SUM_int e g"
  using assms by (induction g) (auto simp: SUM_int_def COUNT_def)

lemma uwt_activity:
  assumes "r \<in> set (user_weekly_totals (user_weekly_activity wk cs yr))"
  shows "1 \<le> total_activity r" and "total_activity r = posts r + comments r"
proof -
  let ?uwa = "user_weekly_activity wk cs yr"
  from assms obtain k g where kg: "(k, g) \<in> set (GROUP_BY (\<lambda>r. (uwa_author r, uwa_year r, uwa_week r)) ?uwa)"
    and r: "posts r = SUM_int post_count g" "comments r = SUM_int comment_count g"
           "total_activity r = SUM_int post_count g + SUM_int comment_count g"
    by (auto simp: user_weekly_totals_def)
  from r show "total_activity r = posts r + comments r" by simp
  from GROUP_BY_member(1)[OF kg] have sub: "set g \<subseteq> set ?uwa" by auto
  then have "\<forall>x \<in> set g. 1 \<le> post_count x + comment_count x"
    using uwa_counts(3) by blast
  then have "COUNT g \<le> SUM_int (\<lambda>x. post_count x + comment_count x) g"
    by (rule SUM_int_ge_COUNT)
  moreover from kg have "1 \<le> COUNT g" by (rule GROUP_BY_COUNT_pos)
  ultimately show "1 \<le> total_activity r"
    by (simp add: r SUM_int_add)
qed

lemma uwt_keys_distinct:
  "distinct (map (\<lambda>r. (uwt_author r, uwt_year r, uwt_week r)) (user_weekly_totals uwa))"
proof -
  have "map (\<lambda>r. (uwt_author r, uwt_year r, uwt_week r)) (user_weekly_totals uwa)
        = map fst (GROUP_BY (\<lambda>r. (uwa_author r, uwa_year r, uwa_week r)) uwa)"
    by (simp add: user_weekly_totals_def comp_def case_prod_unfold)
  then show ?thesis by (simp add: GROUP_BY_keys_distinct)
qed

lemma tier_of_one:
  fixes a :: int
  assumes "1 \<le> a"
  shows "(if 50 \<le> a then 1 else 0) + (if 20 \<le> a \<and> a < 50 then 1 else 0)
       + (if 10 \<le> a \<and> a < 20 then 1 else 0) + (if 3 \<le> a \<and> a < 10 then 1 else 0)
       + (if 1 \<le> a \<and> a < 3 then 1 else 0) = (1::int)"
  using assms by simp

lemma tiers_cover:
  fixes act :: "'a \<Rightarrow> int"
  assumes "\<forall>x \<in> set g. 1 \<le> act x"
  shows "SUM_CASE (\<lambda>r. 50 \<le> act r) g
       + SUM_CASE (\<lambda>r. 20 \<le> act r \<and> act r < 50) g
       + SUM_CASE (\<lambda>r. 10 \<le> act r \<and> act r < 20) g
       + SUM_CASE (\<lambda>r. 3 \<le> act r \<and> act r < 10) g
       + SUM_CASE (\<lambda>r. 1 \<le> act r \<and> act r < 3) g = COUNT g"
  using assms
proof (induction g)
  case Nil
  show ?case by (simp add: SUM_CASE_def SUM_int_def COUNT_def)
next
  case (Cons x g)
  from Cons.prems have "1 \<le> act x" by simp
  note one = tier_of_one [OF this]
  from Cons have ih: "SUM_CASE (\<lambda>r. 50 \<le> act r) g
       + SUM_CASE (\<lambda>r. 20 \<le> act r \<and> act r < 50) g
       + SUM_CASE (\<lambda>r. 10 \<le> act r \<and> act r < 20) g
       + SUM_CASE (\<lambda>r. 3 \<le> act r \<and> act r < 10) g
       + SUM_CASE (\<lambda>r. 1 \<le> act r \<and> act r < 3) g = COUNT g" by simp
  show ?case
    using one ih unfolding SUM_CASE_def SUM_int_def COUNT_def list.map sum_list.Cons list.size
    by linarith
qed

lemma group_authors_distinct:
  assumes "distinct (map (\<lambda>r. (uwt_author r, uwt_year r, uwt_week r)) uwt)"
  shows "distinct (map uwt_author (filter (\<lambda>r. (uwt_year r, uwt_week r) = k) uwt))"
  using assms by (induction uwt) (auto simp: image_iff)

lemma COUNT_DISTINCT_distinct:
  "distinct (map e g) \<Longrightarrow> COUNT_DISTINCT e g = COUNT g"
  by (simp add: COUNT_DISTINCT_def COUNT_def distinct_remdups_id)


lemma weekly_aggregates_row:
  assumes "r \<in> set (weekly_aggregates uwt)"
  obtains g :: "UserWeeklyTotals list"
    where "g = filter (\<lambda>x. (uwt_year x, uwt_week x) = (year r, week r)) uwt"
    and "g \<noteq> []"
    and "total_users r = COUNT_DISTINCT uwt_author g"
    and "total_posts r = SUM_int posts g"
    and "total_comments r = SUM_int comments g"
    and "ultra_active_users r = SUM_CASE (\<lambda>r. 50 \<le> total_activity r) g"
    and "very_active_users r = SUM_CASE (\<lambda>r. 20 \<le> total_activity r \<and> total_activity r < 50) g"
    and "active_users r = SUM_CASE (\<lambda>r. 10 \<le> total_activity r \<and> total_activity r < 20) g"
    and "occasional_users r = SUM_CASE (\<lambda>r. 3 \<le> total_activity r \<and> total_activity r < 10) g"
    and "low_activity_users r = SUM_CASE (\<lambda>r. 1 \<le> total_activity r \<and> total_activity r < 3) g"
proof -
  from assms obtain k g where kg: "(k, g) \<in> set (GROUP_BY (\<lambda>r. (uwt_year r, uwt_week r)) uwt)"
    and r: "r = (\<lambda>((y, w), g).
            \<lparr>year = y, week = w,
             week_start = DATEADD_WEEK (w - 1) (DATEFROMPARTS y 1 1),
             total_users = COUNT_DISTINCT uwt_author g,
             total_posts = SUM_int posts g,
             total_comments = SUM_int comments g,
             ultra_active_users = SUM_CASE (\<lambda>r. 50 \<le> total_activity r) g,
             very_active_users = SUM_CASE (\<lambda>r. 20 \<le> total_activity r \<and> total_activity r < 50) g,
             active_users = SUM_CASE (\<lambda>r. 10 \<le> total_activity r \<and> total_activity r < 20) g,
             occasional_users = SUM_CASE (\<lambda>r. 3 \<le> total_activity r \<and> total_activity r < 10) g,
             low_activity_users = SUM_CASE (\<lambda>r. 1 \<le> total_activity r \<and> total_activity r < 3) g\<rparr>) (k, g)"
    unfolding weekly_aggregates_def by auto
  obtain y w where k: "k = (y, w)" by (cases k)
  from r k have yw: "year r = y" "week r = w" by simp_all
  show thesis
  proof (rule that [of g])
    show "g = filter (\<lambda>x. (uwt_year x, uwt_week x) = (year r, week r)) uwt"
      using GROUP_BY_member(1) [OF kg] by (simp add: k yw)
    show "g \<noteq> []" by (rule GROUP_BY_member(2) [OF kg])
  qed (simp_all add: r k)
qed

lemma fetchWeeklyStats_set:
  "set (fetchWeeklyStats wk cs yr)
   = set (weekly_aggregates (user_weekly_totals (user_weekly_activity wk cs yr)))"
  by (simp add: fetchWeeklyStats_def)

lemma fetched_row:
  assumes "r \<in> set (fetchWeeklyStats wk cs yr)"
  obtains g :: "UserWeeklyTotals list" where
        "\<forall>x \<in> set g. 1 \<le> total_activity x \<and> 1 \<le> posts x + comments x"
    and "g \<noteq> []"
    and "total_users r = COUNT g"
    and "total_posts r = SUM_int posts g"
    and "total_comments r = SUM_int comments g"
    and "ultra_active_users r = SUM_CASE (\<lambda>r. 50 \<le> total_activity r) g"
    and "very_active_users r = SUM_CASE (\<lambda>r. 20 \<le> total_activity r \<and> total_activity r < 50) g"
    and "active_users r = SUM_CASE (\<lambda>r. 10 \<le> total_activity r \<and> total_activity r < 20) g"
    and "occasional_users r = SUM_CASE (\<lambda>r. 3 \<le> total_activity r \<and> total_activity r < 10) g"
    and "low_activity_users r = SUM_CASE (\<lambda>r. 1 \<le> total_activity r \<and> total_activity r < 3) g"
proof -
  let ?uwt = "user_weekly_totals (user_weekly_activity wk cs yr)"
  from assms have "r \<in> set (weekly_aggregates ?uwt)" by (simp add: fetchWeeklyStats_set)
  then obtain g :: "UserWeeklyTotals list" where g: "g = filter (\<lambda>x. (uwt_year x, uwt_week x) = (year r, week r)) ?uwt"
    and ne: "g \<noteq> []"
    and flds: "total_users r = COUNT_DISTINCT uwt_author g"
      "total_posts r = SUM_int posts g"
      "total_comments r = SUM_int comments g"
      "ultra_active_users r = SUM_CASE (\<lambda>r. 50 \<le> total_activity r) g"
      "very_active_users r = SUM_CASE (\<lambda>r. 20 \<le> total_activity r \<and> total_activity r < 50) g"
      "active_users r = SUM_CASE (\<lambda>r. 10 \<le> total_activity r \<and> total_activity r < 20) g"
      "occasional_users r = SUM_CASE (\<lambda>r. 3 \<le> total_activity r \<and> total_activity r < 10) g"
      "low_activity_users r = SUM_CASE (\<lambda>r. 1 \<le> total_activity r \<and> total_activity r < 3) g"
    by (rule weekly_aggregates_row)
  have "distinct (map uwt_author g)"
    unfolding g by (rule group_authors_distinct) (rule uwt_keys_distinct)
  then have cd: "COUNT_DISTINCT uwt_author g = COUNT g" by (rule COUNT_DISTINCT_distinct)
  have "set g \<subseteq> set ?uwt" by (auto simp: g)
  then have act: "\<forall>x \<in> set g. 1 \<le> total_activity x \<and> 1 \<le> posts x + comments x"
    using uwt_activity by fastforce
  show thesis
    by (rule that [of g]) (use act ne flds cd in simp_all)
qed

lemma total_users_accounts:
  assumes "r \<in> set (fetchWeeklyStats wk cs yr)"
  shows "total_users r = int (length (accounts_of_week wk cs yr (year r) (week r)))"
proof -
  let ?uwt = "user_weekly_totals (user_weekly_activity wk cs yr)"
  let ?g = "filter (\<lambda>x. (uwt_year x, uwt_week x) = (year r, week r)) ?uwt"
  from assms have "r \<in> set (weekly_aggregates ?uwt)" by (simp add: fetchWeeklyStats_set)
  then have tu: "total_users r = COUNT_DISTINCT uwt_author ?g"
    by (rule weekly_aggregates_row) simp
  have "uwt_author ` set ?g
        = {a. (a, year r, week r) \<in> (\<lambda>r. (uwt_author r, uwt_year r, uwt_week r)) ` set ?uwt}"
    by (auto simp: image_iff)
  also have "\<dots> = {a. (a, year r, week r) \<in>
        (\<lambda>c. (author c, DATEPART_YEAR (created c), wk (created c))) ` {c \<in> set cs. in_year_range yr c}}"
    by (simp only: uwt_keys uwa_keys)
  also have "\<dots> = author ` {c \<in> set cs. in_year_range yr c \<and> DATEPART_YEAR (created c) = year r
                                  \<and> wk (created c) = week r}"
    by (auto simp: image_iff)
  finally have "card (uwt_author ` set ?g) = length (accounts_of_week wk cs yr (year r) (week r))"
    by (simp add: accounts_of_week_def length_remdups_card_conv)
  then show ?thesis
    by (simp add: tu COUNT_DISTINCT_def length_remdups_card_conv)
qed


lemma example_fetch:
  "fetchWeeklyStats january_week example_comments 2023 = [example_week1, example_week2]"
  by code_simp

text \<open>
  Claim C3. In every row that the yearly aggregation produces, the five tier counts add
  up to \<open>total_users\<close>, and \<open>total_users\<close> is the number of distinct accounts that have
  at least one action in that week; an account without an action has no row to be
  classified.
\<close>

theorem tier_partition:
  assumes "r \<in> set (fetchWeeklyStats wk cs yr)"
  shows "ultra_active_users r + very_active_users r + active_users r
         + occasional_users r + low_activity_users r = total_users r
       \<and> total_users r = int (length (accounts_of_week wk cs yr (year r) (week r)))"
proof -
  from assms obtain g :: "UserWeeklyTotals list" where
        act: "\<forall>x \<in> set g. 1 \<le> total_activity x \<and> 1 \<le> posts x + comments x"
    and "total_users r = COUNT g"
    and "ultra_active_users r = SUM_CASE (\<lambda>r. 50 \<le> total_activity r) g"
    and "very_active_users r = SUM_CASE (\<lambda>r. 20 \<le> total_activity r \<and> total_activity r < 50) g"
    and "active_users r = SUM_CASE (\<lambda>r. 10 \<le> total_activity r \<and> total_activity r < 20) g"
    and "occasional_users r = SUM_CASE (\<lambda>r. 3 \<le> total_activity r \<and> total_activity r < 10) g"
    and "low_activity_users r = SUM_CASE (\<lambda>r. 1 \<le> total_activity r \<and> total_activity r < 3) g"
    by (rule fetched_row)
  moreover from act have "\<forall>x \<in> set g. 1 \<le> total_activity x" by simp
  ultimately have "ultra_active_users r + very_active_users r + active_users r
         + occasional_users r + low_activity_users r = total_users r"
    by (simp add: tiers_cover)
  with total_users_accounts [OF assms] show ?thesis by simp
qed

theorem tier_partition_witness:
  "example_week1 \<in> set (fetchWeeklyStats january_week example_comments 2023)
   \<and> ultra_active_users example_week1 + very_active_users example_week1
     + active_users example_week1 + occasional_users example_week1
     + low_activity_users example_week1 = 2
   \<and> total_users example_week1 = 2
   \<and> accounts_of_week january_week example_comments 2023 2023 1 = [''alice'', ''bob'']"
proof -
  have m: "example_week1 \<in> set (fetchWeeklyStats january_week example_comments 2023)"
    by (simp add: example_fetch)
  have a: "accounts_of_week january_week example_comments 2023 2023 1 = [''alice'', ''bob'']"
    by code_simp
  from tier_partition [OF m] m a show ?thesis
    by (simp add: example_week1_def)
qed

text \<open>
  Claim C10. Every row that the yearly aggregation produces has at least one user, and
  its posts and comments together are at least as many as its users; the week of a row
  has an action in the range, so a week without one has no row.
\<close>

theorem rows_have_users:
  assumes "r \<in> set (fetchWeeklyStats wk cs yr)"
  shows "1 \<le> total_users r \<and> total_users r \<le> total_posts r + total_comments r
       \<and> (\<exists>c \<in> set cs. in_year_range yr c \<and> DATEPART_YEAR (created c) = year r
                          \<and> wk (created c) = week r)"
proof -
  from assms obtain g :: "UserWeeklyTotals list" where
        act: "\<forall>x \<in> set g. 1 \<le> total_activity x \<and> 1 \<le> posts x + comments x"
    and ne: "g \<noteq> []"
    and tu: "total_users r = COUNT g"
    and tp: "total_posts r = SUM_int posts g"
    and tc: "total_comments r = SUM_int comments g"
    by (rule fetched_row)
  from ne have one: "1 \<le> COUNT g" by (cases g) (simp_all add: COUNT_def)
  from act have "\<forall>x \<in> set g. 1 \<le> posts x + comments x" by simp
  then have "COUNT g \<le> SUM_int (\<lambda>x. posts x + comments x) g" by (rule SUM_int_ge_COUNT)
  with one have a: "1 \<le> total_users r \<and> total_users r \<le> total_posts r + total_comments r"
    by (simp add: tu tp tc SUM_int_add)
  with total_users_accounts [OF assms]
  have "accounts_of_week wk cs yr (year r) (week r) \<noteq> []" by auto
  then have "\<exists>c \<in> set cs. in_year_range yr c \<and> DATEPART_YEAR (created c) = year r
                          \<and> wk (created c) = week r"
    by (auto simp: accounts_of_week_def filter_empty_conv)
  with a show ?thesis by simp
qed

theorem rows_have_users_witness:
  "example_week2 \<in> set (fetchWeeklyStats january_week example_comments 2023)
   \<and> total_users example_week2 = 1
   \<and> total_posts example_week2 + total_comments example_week2 = 1
   \<and> map (\<lambda>r. (year r, week r, total_users r))
         (fetchWeeklyStats january_week example_comments 2023) = [(2023, 1, 2), (2023, 2, 1)]"
proof -
  have m: "example_week2 \<in> set (fetchWeeklyStats january_week example_comments 2023)"
    by (simp add: example_fetch)
  from rows_have_users [OF m] m show ?thesis
    by (simp add: example_fetch example_week1_def example_week2_def)
qed


section \<open>Saving the rows of a year\<close>

lemma insert_or_replace_alt:
  "insert_or_replace now db row = filter (\<lambda>s. row_key (fst s) \<noteq> row_key row) db @ [(row, now)]"
  by (simp add: insert_or_replace_def row_key_def)

lemma save_append:
  "saveToDatabase t (xs @ ys) rows
   = filter (\<lambda>s. row_key (fst s) \<notin> row_key ` set rows) xs @ saveToDatabase t ys rows"
proof (induction rows arbitrary: xs ys)
  case Nil
  show ?case by (simp add: saveToDatabase_def)
next
  case (Cons r rows)
  have "saveToDatabase t (xs @ ys) (r # rows)
        = saveToDatabase t (filter (\<lambda>s. row_key (fst s) \<noteq> row_key r) xs @ insert_or_replace t ys r) rows"
    by (simp add: saveToDatabase_def insert_or_replace_alt)
  also have "\<dots> = filter (\<lambda>s. row_key (fst s) \<notin> row_key ` set rows)
                      (filter (\<lambda>s. row_key (fst s) \<noteq> row_key r) xs)
                    @ saveToDatabase t (insert_or_replace t ys r) rows"
    by (rule Cons.IH)
  also have "\<dots> = filter (\<lambda>s. row_key (fst s) \<notin> row_key ` set (r # rows)) xs
                    @ saveToDatabase t ys (r # rows)"
    by (simp add: saveToDatabase_def conj_commute)
  finally show ?case .
qed

lemma save_from_empty:
  "saveToDatabase t db rows
   = filter (\<lambda>s. row_key (fst s) \<notin> row_key ` set rows) db @ saveToDatabase t [] rows"
  using save_append [of t db "[]" rows] by simp

lemma save_keys:
  "s \<in> set (saveToDatabase t db rows) \<Longrightarrow> s \<in> set db \<or> fst s \<in> set rows"
proof (induction rows arbitrary: db)
  case Nil
  then show ?case by (simp add: saveToDatabase_def)
next
  case (Cons r rows)
  from Cons.prems have "s \<in> set (saveToDatabase t (insert_or_replace t db r) rows)"
    by (simp add: saveToDatabase_def)
  from Cons.IH [OF this] show ?case
    by (auto simp: insert_or_replace_def)
qed

lemma save_rows_clock:
  "map fst db = map fst db' \<Longrightarrow>
   map fst (saveToDatabase t db rows) = map fst (saveToDatabase t' db' rows)"
proof (induction rows arbitrary: db db')
  case Nil
  then show ?case by (simp add: saveToDatabase_def)
next
  case (Cons r rows)
  have f: "\<And>d. map fst (insert_or_replace t d r)
           = filter (\<lambda>x. row_key x \<noteq> row_key r) (map fst d) @ [r]" for t
    by (simp add: insert_or_replace_alt filter_map comp_def)
  have "map fst (insert_or_replace t db r) = map fst (insert_or_replace t' db' r)"
    by (simp add: f Cons.prems)
  from Cons.IH [OF this] show ?case by (simp add: saveToDatabase_def)
qed

lemma save_distinct_rows:
  "distinct (map row_key rows) \<Longrightarrow> map fst (saveToDatabase t [] rows) = rows"
proof (induction rows)
  case Nil
  show ?case by (simp add: saveToDatabase_def)
next
  case (Cons r rows)
  have "saveToDatabase t [] (r # rows) = saveToDatabase t ([(r, t)] @ []) rows"
    by (simp add: saveToDatabase_def insert_or_replace_def)
  also have "\<dots> = filter (\<lambda>s. row_key (fst s) \<notin> row_key ` set rows) [(r, t)] @ saveToDatabase t [] rows"
    by (rule save_append)
  finally show ?case using Cons by simp
qed

lemma save_twice:
  "weekly_stats_rows (saveToDatabase t2 (saveToDatabase t1 db rows) rows)
   = weekly_stats_rows (saveToDatabase t1 db rows)"
proof -
  let ?out = "\<lambda>s :: WeeklyStats \<times> nat. row_key (fst s) \<notin> row_key ` set rows"
  let ?T1 = "saveToDatabase t1 [] rows"
  have T1: "filter ?out ?T1 = []"
    using save_keys [of _ t1 "[]" rows] by (auto simp: filter_empty_conv)
  have "saveToDatabase t2 (saveToDatabase t1 db rows) rows
        = saveToDatabase t2 (filter ?out db @ ?T1) rows"
    using save_from_empty [of t1 db rows] by simp
  also have "\<dots> = filter ?out (filter ?out db) @ saveToDatabase t2 ?T1 rows"
    by (rule save_append)
  also have "saveToDatabase t2 ?T1 rows = filter ?out ?T1 @ saveToDatabase t2 [] rows"
    by (rule save_from_empty)
  finally have "saveToDatabase t2 (saveToDatabase t1 db rows) rows
                = filter ?out db @ saveToDatabase t2 [] rows"
    by (simp add: T1)
  moreover have "map fst (saveToDatabase t2 [] rows) = map fst ?T1"
    by (rule save_rows_clock) simp
  ultimately show ?thesis
    using save_from_empty [of t1 db rows] by (simp add: weekly_stats_rows_def)
qed

lemma weekly_aggregates_keys_distinct: "distinct (map row_key (weekly_aggregates uwt))"
proof -
  have "map row_key (weekly_aggregates uwt) = map fst (GROUP_BY (\<lambda>r. (uwt_year r, uwt_week r)) uwt)"
    by (simp add: weekly_aggregates_def row_key_def comp_def case_prod_unfold)
  then show ?thesis by (simp add: GROUP_BY_keys_distinct)
qed

lemma fetch_keys_distinct: "distinct (map row_key (fetchWeeklyStats wk cs yr))"
  using weekly_aggregates_keys_distinct [of "user_weekly_totals (user_weekly_activity wk cs yr)"]
  by (simp add: fetchWeeklyStats_def distinct_map)


text \<open>The result of the aggregation is the same for every order in which the engine
  scans the ledger.\<close>

lemma mset_keys: "mset xs = mset ys \<Longrightarrow> mset (remdups (map f xs)) = mset (remdups (map f ys))"
proof -
  assume a: "mset xs = mset ys"
  then have "set (map f xs) = set (map f ys)" by (metis mset_map set_mset_mset)
  then have "set (remdups (map f xs)) = set (remdups (map f ys))" by simp
  then show ?thesis by (metis distinct_remdups set_eq_iff_mset_eq_distinct)
qed

lemma GROUP_BY_mset:
  assumes "mset xs = mset ys"
    and "\<And>k g g'. mset g = mset g' \<Longrightarrow> h (k, g) = h (k, g')"
  shows "mset (map h (GROUP_BY f xs)) = mset (map h (GROUP_BY f ys))"
proof -
  have g: "mset (filter (\<lambda>x. f x = k) xs) = mset (filter (\<lambda>x. f x = k) ys)" for k
    using assms(1) by (metis mset_filter)
  have "map h (GROUP_BY f xs) = map (\<lambda>k. h (k, filter (\<lambda>x. f x = k) ys)) (remdups (map f xs))"
    by (simp add: GROUP_BY_def comp_def assms(2) [OF g])
  then have "mset (map h (GROUP_BY f xs))
             = image_mset (\<lambda>k. h (k, filter (\<lambda>x. f x = k) ys)) (mset (remdups (map f xs)))"
    by simp
  also have "\<dots> = image_mset (\<lambda>k. h (k, filter (\<lambda>x. f x = k) ys)) (mset (remdups (map f ys)))"
    by (simp only: mset_keys [OF assms(1)])
  also have "\<dots> = mset (map h (GROUP_BY f ys))"
    by (simp add: GROUP_BY_def comp_def)
  finally show ?thesis .
qed

lemma SUM_int_mset: "mset g = mset g' \<Longrightarrow> SUM_int e g = SUM_int e g'"
  unfolding SUM_int_def by (metis mset_map sum_mset_sum_list)

lemma COUNT_mset: "mset g = mset g' \<Longrightarrow> COUNT g = COUNT g'"
  unfolding COUNT_def by (metis size_mset)

lemma COUNT_DISTINCT_mset: "mset g = mset g' \<Longrightarrow> COUNT_DISTINCT e g = COUNT_DISTINCT e g'"
proof -
  assume "mset g = mset g'"
  then have "set (map e g) = set (map e g')" by (metis mset_map set_mset_mset)
  then show ?thesis by (simp add: COUNT_DISTINCT_def length_remdups_card_conv)
qed

lemma user_weekly_activity_mset:
  assumes "mset cs = mset cs'"
  shows "mset (user_weekly_activity wk cs yr) = mset (user_weekly_activity wk cs' yr)"
proof -
  have f: "mset (filter P cs) = mset (filter P cs')" for P
    using assms by (metis mset_filter)
  show ?thesis
    unfolding user_weekly_activity_def mset_append
    apply (intro arg_cong2 [where f = "(+)"] GROUP_BY_mset f)
    subgoal for k g g'
      using COUNT_mset [of g g'] by (simp add: case_prod_unfold)
    subgoal for k g g'
      using COUNT_mset [of g g'] by (simp add: case_prod_unfold)
    done
qed

lemma user_weekly_totals_mset:
  assumes "mset uwa = mset uwa'"
  shows "mset (user_weekly_totals uwa) = mset (user_weekly_totals uwa')"
  unfolding user_weekly_totals_def
  apply (intro GROUP_BY_mset assms)
  subgoal for k g g'
    using SUM_int_mset [of g g'] by (simp add: case_prod_unfold)
  done

lemma weekly_aggregates_mset:
  assumes "mset uwt = mset uwt'"
  shows "mset (weekly_aggregates uwt) = mset (weekly_aggregates uwt')"
  unfolding weekly_aggregates_def SUM_CASE_def
  apply (intro GROUP_BY_mset assms)
  subgoal for k g g'
    using SUM_int_mset [of g g'] COUNT_DISTINCT_mset [of g g'] by (simp add: case_prod_unfold)
  done

lemma weekly_aggregates_pairs_distinct: "distinct (map (\<lambda>r. (year r, week r)) (weekly_aggregates uwt))"
proof -
  have "map (\<lambda>r. (year r, week r)) (weekly_aggregates uwt) = map fst (GROUP_BY (\<lambda>r. (uwt_year r, uwt_week r)) uwt)"
    by (simp add: weekly_aggregates_def comp_def case_prod_unfold)
  then show ?thesis by (simp add: GROUP_BY_keys_distinct)
qed

lemma fetchWeeklyStats_scan_order:
  assumes "mset cs = mset cs'"
  shows "fetchWeeklyStats wk cs yr = fetchWeeklyStats wk cs' yr"
proof -
  let ?a = "weekly_aggregates (user_weekly_totals (user_weekly_activity wk cs yr))"
  let ?b = "weekly_aggregates (user_weekly_totals (user_weekly_activity wk cs' yr))"
  have m: "mset ?a = mset ?b"
    by (intro weekly_aggregates_mset user_weekly_totals_mset user_weekly_activity_mset assms)
  have "inj_on (\<lambda>r. (year r, week r)) (set ?a)"
    using weekly_aggregates_pairs_distinct [of "user_weekly_totals (user_weekly_activity wk cs yr)"]
    by (simp add: distinct_map)
  with m have "sort_key (\<lambda>r. (year r, week r)) ?a = sort_key (\<lambda>r. (year r, week r)) ?b"
    by (intro sort_key_inj_key_eq) (simp_all add: sorted_sort_key)
  then show ?thesis by (simp add: fetchWeeklyStats_def)
qed


text \<open>
  Claim C8. Saving the aggregation of the same raw input a second time leaves the
  \<open>WeeklyStats\<close> columns of the table as the first run left them; after a run the
  table holds the rows of the other keys, untouched, and then the rows that the
  aggregation produced, each key once; and the aggregation is a function of the rows
  of the ledger (whatever their order), the week convention and the year. (The column
  \<^verbatim>\<open>fetched_at\<close> takes the time of the later run; it is not a column of
  \<open>WeeklyStats\<close>.)
\<close>

theorem reprocessing_idempotent:
  "weekly_stats_rows (saveToDatabase t2 (saveToDatabase t1 db (fetchWeeklyStats wk cs yr))
                         (fetchWeeklyStats wk cs yr))
   = weekly_stats_rows (saveToDatabase t1 db (fetchWeeklyStats wk cs yr))
   \<and> weekly_stats_rows (saveToDatabase t1 db (fetchWeeklyStats wk cs yr))
     = filter (\<lambda>r. row_key r \<notin> row_key ` set (fetchWeeklyStats wk cs yr)) (weekly_stats_rows db)
       @ fetchWeeklyStats wk cs yr
   \<and> (mset cs' = mset cs \<longrightarrow> fetchWeeklyStats wk cs' yr = fetchWeeklyStats wk cs yr)"
proof -
  let ?rows = "fetchWeeklyStats wk cs yr"
  have "map fst (saveToDatabase t1 [] ?rows) = ?rows"
    by (rule save_distinct_rows) (rule fetch_keys_distinct)
  then have "weekly_stats_rows (saveToDatabase t1 db ?rows)
     = filter (\<lambda>r. row_key r \<notin> row_key ` set ?rows) (weekly_stats_rows db) @ ?rows"
    using save_from_empty [of t1 db ?rows]
    by (simp add: weekly_stats_rows_def filter_map comp_def)
  with save_twice [of t2 t1 db ?rows] fetchWeeklyStats_scan_order [of cs' cs wk yr]
  show ?thesis by simp
qed

theorem reprocessing_idempotent_witness:
  "weekly_stats_rows
     (saveToDatabase 9 (saveToDatabase 5 [(week_2021, 1), (low_week 2023 1 (2023, 1, 1) 40, 1)]
                          (fetchWeeklyStats january_week example_comments 2023))
        (fetchWeeklyStats january_week example_comments 2023))
   = [week_2021, example_week1, example_week2]
   \<and> weekly_stats_rows
       (saveToDatabase 5 [(week_2021, 1), (low_week 2023 1 (2023, 1, 1) 40, 1)]
          (fetchWeeklyStats january_week example_comments 2023))
     = [week_2021, example_week1, example_week2]
   \<and> mset (rev example_comments) = mset example_comments
   \<and> fetchWeeklyStats january_week (rev example_comments) 2023 = [example_week1, example_week2]"
proof -
  have k: "row_key week_2021 \<notin> row_key ` set [example_week1, example_week2]"
    "row_key (low_week 2023 1 (2023, 1, 1) 40) \<in> row_key ` set [example_week1, example_week2]"
    by (simp_all add: row_key_def week_2021_def low_week_def example_week1_def example_week2_def)
  have m: "mset (rev example_comments) = mset example_comments" by simp
  show ?thesis
    using reprocessing_idempotent [of 9 5 "[(week_2021, 1), (low_week 2023 1 (2023, 1, 1) 40, 1)]"
        january_week example_comments 2023 "rev example_comments"] k m
    by (simp add: example_fetch weekly_stats_rows_def)
qed

section \<open>The year-over-year view\<close>


lemma yearOverYear_nth:
  "i < length (yearRows ws) \<Longrightarrow>
   yearOverYear ws ps ! i = yearOverYear_entry ps (yearRows ws) (yearRows ws ! i) i"
  by (simp add: yearOverYear_def Let_def)

lemma changePercent_first:
  "changePercent (yearOverYear_entry ps yrs row 0) = None"
  by (simp add: yearOverYear_entry_def)

lemma changePercent_later:
  "0 < i \<Longrightarrow>
   changePercent (yearOverYear_entry ps yrs row i)
   = (let c = js_times (js_div (y_avg_weekly_users row - y_avg_weekly_users (yrs ! (i - 1)))
                               (y_avg_weekly_users (yrs ! (i - 1)))) 100
      in if truthy c then Some (Number_toFixed 1 c) else None)"
  by (simp add: yearOverYear_entry_def Let_def)

lemma steady_rows:
  "yearRows steady_weeks =
   [\<lparr>y_year = 2019, y_avg_weekly_users = 10, y_total_posts = 10, y_total_comments = 0\<rparr>,
    \<lparr>y_year = 2020, y_avg_weekly_users = 10, y_total_posts = 20, y_total_comments = 0\<rparr>]"
  by code_simp


text \<open>
  Claim C9. When the average weekly users of a year equal those of the year before it
  in the series, the view reports no \<open>changePercent\<close> for that year, as it reports none
  for the first year: the computed change, 0 (or NaN when both averages are 0), fails
  the truthiness test that precedes the rounding.
\<close>

theorem zero_change_absent:
  assumes "0 < i" and "i < length (yearRows ws)"
    and "y_avg_weekly_users (yearRows ws ! i) = y_avg_weekly_users (yearRows ws ! (i - 1))"
  shows "changePercent (yearOverYear ws ps ! i) = None
       \<and> changePercent (yearOverYear ws ps ! 0) = None"
proof -
  from assms(1,2) have "0 < length (yearRows ws)" by linarith
  then have "changePercent (yearOverYear ws ps ! 0) = None"
    by (simp add: yearOverYear_nth changePercent_first)
  moreover have "changePercent (yearOverYear ws ps ! i) = None"
    using assms by (simp add: yearOverYear_nth changePercent_later js_div_def)
  ultimately show ?thesis by simp
qed

theorem zero_change_absent_witness:
  "(0::nat) < 1 \<and> 1 < length (yearRows steady_weeks)
   \<and> y_avg_weekly_users (yearRows steady_weeks ! 1) = 10
   \<and> y_avg_weekly_users (yearRows steady_weeks ! (1 - 1)) = 10
   \<and> changePercent (yearOverYear steady_weeks [] ! 1) = None
   \<and> changePercent (yearOverYear steady_weeks [] ! 0) = None"
  using zero_change_absent [of 1 steady_weeks "[]"] by (simp add: steady_rows)











section \<open>The correlation of price and users\<close>








lemma sum_list_shifted_squares:
  "sum_list (map (\<lambda>a. (a - m)\<^sup>2) x)
   = sum_list (map (\<lambda>a. a\<^sup>2) x) - 2 * m * sum_list x + real (length x) * m\<^sup>2"
  for m :: real
  by (induction x) (simp_all add: power2_eq_square algebra_simps)

lemma variance_nonneg:
  "0 \<le> real (length x) * sum_list (map (\<lambda>a. a\<^sup>2) x) - (sum_list x)\<^sup>2"
proof (cases "x = []")
  case True
  then show ?thesis by simp
next
  case False
  define n where "n = real (length x)"
  define m where "m = sum_list x / n"
  from False have n: "0 < n" by (simp add: n_def)
  have "0 \<le> sum_list (map (\<lambda>a. (a - m)\<^sup>2) x)"
    by (rule sum_list_nonneg) auto
  then have "0 \<le> sum_list (map (\<lambda>a. a\<^sup>2) x) - 2 * m * sum_list x + n * m\<^sup>2"
    by (simp add: sum_list_shifted_squares n_def)
  also have "\<dots> = sum_list (map (\<lambda>a. a\<^sup>2) x) - (sum_list x)\<^sup>2 / n"
    using n by (simp add: m_def power2_eq_square field_simps)
  finally have "0 \<le> n * (sum_list (map (\<lambda>a. a\<^sup>2) x) - (sum_list x)\<^sup>2 / n)"
    using n by simp
  with n show ?thesis by (simp add: n_def algebra_simps)
qed

lemma radicand_nonneg:
  "length x = length y \<Longrightarrow>
   0 \<le> (real (length x) * sum_list (map (\<lambda>a. a\<^sup>2) x) - (sum_list x)\<^sup>2)
        * (real (length x) * sum_list (map (\<lambda>b. b\<^sup>2) y) - (sum_list y)\<^sup>2)"
  using variance_nonneg [of x] variance_nonneg [of y] by simp

lemma sum_list_constant: "\<forall>b \<in> set y. b = c \<Longrightarrow> sum_list (map f y) = real (length y) * f c"
  for c :: real
  by (induction y) (simp_all add: algebra_simps)

lemma pearson_zero_variance:
  assumes "(\<forall>a \<in> set x. a = c) \<or> (\<forall>b \<in> set y. b = c)" and "length x = length y"
  shows "pearson_r x y = 0"
proof -
  have z: "real (length v) * sum_list (map (\<lambda>a. a\<^sup>2) v) - (sum_list v)\<^sup>2 = 0"
    if "\<forall>a \<in> set v. a = c" for v
    using sum_list_constant [OF that, of "\<lambda>a. a\<^sup>2"] sum_list_constant [OF that, of "\<lambda>a. a"]
    by (simp add: power2_eq_square)
  from assms z [of x] z [of y] show ?thesis
    by (auto simp: pearson_r_def Let_def)
qed

lemma savePrices_positive:
  assumes "\<forall>r \<in> set db. 0 < price_usd r" and "\<forall>p \<in> set prices. 0 < snd p"
  shows "\<forall>r \<in> set (savePrices db c prices). 0 < price_usd r"
  using assms
proof (induction prices arbitrary: db)
  case Nil
  then show ?case by (simp add: savePrices_def)
next
  case (Cons p prices)
  let ?db = "filter (\<lambda>r. date r \<noteq> fst p) db @ [\<lparr>date = fst p, coin = c, price_usd = snd p\<rparr>]"
  from Cons.prems have "\<forall>r \<in> set ?db. 0 < price_usd r" by auto
  moreover from Cons.prems have "\<forall>q \<in> set prices. 0 < snd q" by simp
  ultimately have "\<forall>r \<in> set (savePrices ?db c prices). 0 < price_usd r"
    by (rule Cons.IH)
  then show ?case by (simp add: savePrices_def)
qed

lemma ingested_prices_positive:
  assumes "\<forall>r \<in> set db. 0 < price_usd r"
  shows "\<forall>r \<in> set (savePrices db c (fetchDailyHistory utc_date answer)). 0 < price_usd r"
  by (rule savePrices_positive [OF assms]) (auto simp: fetchDailyHistory_def)

lemma AVG_positive:
  assumes "AVG xs = Some a" and "\<forall>x \<in> set xs. 0 < x"
  shows "0 < a"
proof -
  from assms(1) have ne: "xs \<noteq> []" and a: "a = sum_list xs / real (length xs)"
    by (auto simp: AVG_def split: if_splits)
  from ne assms(2) have "0 < sum_list xs"
    by (induction xs rule: list_nonempty_induct) (auto intro: add_pos_pos)
  with ne show ?thesis by (simp add: a)
qed

lemma joined_price_positive:
  assumes "\<forall>p \<in> set ps. 0 < price_usd p" and "w \<in> set (getWeeklyStats ws ps)"
    and "avg_price w = Some a"
  shows "0 < a"
proof -
  from assms(2) obtain r where "avg_price w = AVG (map price_usd (filter (price_matches r) ps))"
    by (auto simp: getWeeklyStats_def)
  with assms(3) have "AVG (map price_usd (filter (price_matches r) ps)) = Some a" by simp
  then show ?thesis by (rule AVG_positive) (use assms(1) in auto)
qed

lemma positive_prices_priced_weeks:
  assumes "\<forall>p \<in> set ps. 0 < price_usd p"
  shows "pearson_over_positive_weeks (getWeeklyStats ws ps)
         = pearson_over_priced_weeks (getWeeklyStats ws ps)"
proof -
  let ?rows = "getWeeklyStats ws ps"
  have pos: "\<And>w a. w \<in> set ?rows \<Longrightarrow> avg_price w = Some a \<Longrightarrow> 0 < a"
    using joined_price_positive [OF assms] by blast
  have "filter (\<lambda>w. \<exists>p. avg_price w = Some p \<and> 0 < p) ?rows = filter has_price ?rows"
    by (rule filter_cong) (auto simp: has_price_def dest: pos)
  moreover have "filter (\<lambda>p. 0 < p) (List.map_filter avg_price ?rows) = List.map_filter avg_price ?rows"
    by (rule filter_True) (auto simp: List.map_filter_def dest: pos)
  ultimately show ?thesis
    by (simp add: pearson_over_positive_weeks_def pearson_over_priced_weeks_def)
qed











section \<open>The peak week\<close>

lemma get_hd: "xs \<noteq> [] \<Longrightarrow> get (LIMIT_OFFSET 1 0 xs) = Some (hd xs)"
  by (cases xs) (simp_all add: get_def LIMIT_OFFSET_def)

lemma get_empty: "get (LIMIT_OFFSET n off []) = None"
  by (simp add: get_def LIMIT_OFFSET_def)

lemma peakRow_empty: "peakRow [] = None"
  by (simp add: peakRow_def ORDER_BY_def get_empty)

lemma sorted_hd_min:
  assumes "sorted (map f xs)" and "x \<in> set xs"
  shows "f (hd xs) \<le> f x"
  using assms by (cases xs) auto

lemma find_filter_hd: "filter P xs = r # rest \<Longrightarrow> find P xs = Some r"
  by (induction xs) (auto split: if_splits)

lemma first_of_stable_sort:
  assumes "xs \<noteq> []"
  shows "find (\<lambda>y. f y = f (hd (sort_key f xs))) xs = Some (hd (sort_key f xs))"
proof -
  let ?s = "sort_key f xs"
  let ?k = "f (hd ?s)"
  from assms have ne: "?s \<noteq> []" by (metis length_0_conv length_sort)
  then have "filter (\<lambda>y. f y = ?k) ?s = hd ?s # filter (\<lambda>y. f y = ?k) (tl ?s)"
    by (cases ?s) simp_all
  then have "filter (\<lambda>y. f y = ?k) xs = hd ?s # filter (\<lambda>y. f y = ?k) (tl ?s)"
    by (simp add: sort_key_stable)
  then show ?thesis by (rule find_filter_hd)
qed

lemma peakRow_first_max:
  assumes "peakRow ws = Some r"
  shows "find (\<lambda>w. total_users w = total_users r) ws = Some r"
    and "\<forall>w \<in> set ws. total_users w \<le> total_users r"
proof -
  let ?f = "\<lambda>w. - total_users w"
  let ?s = "sort_key ?f ws"
  from assms have ne: "ws \<noteq> []" by (auto simp: peakRow_empty)
  then have sne: "?s \<noteq> []" by (metis length_0_conv length_sort)
  from get_hd [OF sne] assms have r: "r = hd ?s" by (simp add: peakRow_def ORDER_BY_def)
  from first_of_stable_sort [OF ne, of ?f] show "find (\<lambda>w. total_users w = total_users r) ws = Some r"
    by (simp add: r)
  have "sorted (map ?f ?s)" by (rule sorted_sort_key)
  then have "\<forall>w \<in> set ?s. ?f (hd ?s) \<le> ?f w"
    using sorted_hd_min [of ?f ?s] by simp
  then show "\<forall>w \<in> set ws. total_users w \<le> total_users r" by (simp add: r)
qed

lemma peakRow_nonempty: "ws \<noteq> [] \<Longrightarrow> \<exists>r. peakRow ws = Some r"
  by (metis peakRow_def ORDER_BY_def get_hd length_0_conv length_sort)

lemma first_match_least_key:
  assumes "find P ws = Some r" and "sorted (map row_key ws)" and "x \<in> set ws" and "P x"
  shows "row_key r \<le> row_key x"
proof -
  from assms(1) obtain i where i: "i < length ws" "ws ! i = r" "\<forall>j < i. \<not> P (ws ! j)"
    by (auto simp: find_Some_iff)
  from assms(3) obtain k where k: "k < length ws" "ws ! k = x" by (auto simp: in_set_conv_nth)
  with assms(4) i(3) have "i \<le> k" by (metis not_le_imp_less)
  with assms(2) k(1) have "map row_key ws ! i \<le> map row_key ws ! k"
    using sorted_nth_mono [of "map row_key ws" i k] by simp
  with i k show ?thesis by simp
qed


text \<open>
  Claim C7, as amended. The peak row has the maximum \<open>total_users\<close>, and among the rows
  that reach the maximum it is the first in the scan order of the table: the query
  orders by \<open>total_users\<close> alone. It is the earliest such week when the table is
  scanned in ascending (year, week) order.

  As stated the claim fails: a run saves 2020 and 2021, a later run saves 2020 again
  and stops; the rows of 2020, replaced, now follow those of 2021 in the table, and of
  the two tied weeks the one of 2021 is the peak.
\<close>

theorem peak_is_first_maximum:
  assumes "peakRow ws = Some r"
  shows "r \<in> set ws
       \<and> (\<forall>w \<in> set ws. total_users w \<le> total_users r)
       \<and> find (\<lambda>w. total_users w = total_users r) ws = Some r
       \<and> (sorted (map row_key ws) \<longrightarrow>
            (\<forall>w \<in> set ws. total_users w = total_users r \<longrightarrow> row_key r \<le> row_key w))"
proof -
  note f = peakRow_first_max [OF assms]
  from f(1) have "r \<in> set ws" by (auto simp: find_Some_iff)
  moreover have "\<forall>w \<in> set ws. total_users w = total_users r \<longrightarrow> row_key r \<le> row_key w"
    if "sorted (map row_key ws)"
    using first_match_least_key [OF f(1) that] by blast
  ultimately show ?thesis using f by blast
qed


theorem peak_is_first_maximum_witness:
  "peakRow tied_weeks = Some (low_week 2020 1 (2020, 1, 1) 12)
   \<and> sorted (map row_key tied_weeks)
   \<and> low_week 2020 2 (2020, 1, 8) 12 \<in> set tied_weeks
   \<and> total_users (low_week 2020 2 (2020, 1, 8) 12) = total_users (low_week 2020 1 (2020, 1, 1) 12)
   \<and> row_key (low_week 2020 1 (2020, 1, 1) 12) \<le> row_key (low_week 2020 2 (2020, 1, 8) 12)
   \<and> find (\<lambda>w. total_users w = 12) tied_weeks = Some (low_week 2020 1 (2020, 1, 1) 12)"
proof -
  have p: "peakRow tied_weeks = Some (low_week 2020 1 (2020, 1, 1) 12)"
    by code_simp
  have o: "sorted (map row_key tied_weeks)"
    by (simp add: tied_weeks_def low_week_def row_key_def)
  have m: "low_week 2020 2 (2020, 1, 8) 12 \<in> set tied_weeks"
    by (simp add: tied_weeks_def)
  have u: "total_users (low_week 2020 1 (2020, 1, 1) 12) = 12"
    "total_users (low_week 2020 2 (2020, 1, 8) 12) = 12"
    by (simp_all add: low_week_def)
  from peak_is_first_maximum [OF p] o m u show ?thesis
    by (auto simp: p)
qed

theorem peak_tie_counterexample:
  "weekly_stats_rows (saveToDatabase 2 (saveToDatabase 1 [] [week_2020, week_2021]) [week_2020])
     = [week_2021, week_2020]
   \<and> peakRow [week_2021, week_2020] = Some week_2021
   \<and> total_users week_2020 = total_users week_2021
   \<and> row_key week_2020 < row_key week_2021"
  by code_simp




section \<open>The last complete week\<close>

lemma neg_key_le:
  "(- year a, - week a) \<le> (- year b, - week b) \<longleftrightarrow> row_key b \<le> row_key a"
  by (auto simp: row_key_def)

lemma lastCompleteWeekRow_short: "length ws < 2 \<Longrightarrow> lastCompleteWeekRow ws = None"
proof -
  assume "length ws < 2"
  then have "length (sort_key (\<lambda>w. (- year w, - week w)) ws) < 2" by simp
  then have "drop 1 (sort_key (\<lambda>w. (- year w, - week w)) ws) = []" by simp
  then show ?thesis
    by (simp add: lastCompleteWeekRow_def ORDER_BY_def LIMIT_OFFSET_def get_def)
qed

lemma getStats_short: "length ws < 2 \<Longrightarrow> getStats ws ps = Inl TypeError"
  by (simp add: getStats_def Let_def lastCompleteWeekRow_short split: option.splits)

lemma getStats_never_insufficient: "getStats ws ps \<noteq> Inl InsufficientData"
  by (simp add: getStats_def Let_def split: option.splits)

lemma lastCompleteWeekRow_second:
  assumes "2 \<le> length ws" and "distinct (map row_key ws)"
  obtains m r where "lastCompleteWeekRow ws = Some r" and "m \<in> set ws" and "r \<in> set ws"
    and "row_key r < row_key m"
    and "\<forall>x \<in> set ws. x = m \<or> x = r \<or> row_key x < row_key r"
proof -
  let ?f = "\<lambda>w. (- year w, - week w)"
  let ?s = "sort_key ?f ws"
  from assms(1) have "2 \<le> length ?s" by simp
  then obtain m r rest where s: "?s = m # r # rest"
    by (cases ?s; cases "tl ?s") auto
  have d: "distinct (map row_key ?s)"
    using assms(2) by (simp add: distinct_map)
  have srt: "sorted (map ?f ?s)" by (rule sorted_sort_key)
  have set: "set ws = set ?s" by simp
  from srt s have "?f m \<le> ?f r" and rest: "\<forall>x \<in> set rest. ?f r \<le> ?f x" by auto
  then have mr: "row_key r \<le> row_key m" and rr: "\<forall>x \<in> set rest. row_key x \<le> row_key r"
    by (simp_all only: neg_key_le)
  from d s have ne: "row_key m \<noteq> row_key r" "\<forall>x \<in> set rest. row_key x \<noteq> row_key r"
    by (auto simp: image_iff)
  show thesis
  proof (rule that [of r m])
    show "lastCompleteWeekRow ws = Some r"
      by (simp add: lastCompleteWeekRow_def ORDER_BY_def LIMIT_OFFSET_def get_def s)
    show "m \<in> set ws" "r \<in> set ws" unfolding set s by simp_all
    from mr ne show "row_key r < row_key m" by simp
    show "\<forall>x \<in> set ws. x = m \<or> x = r \<or> row_key x < row_key r"
      unfolding set s using rr ne(2) by (auto simp: order.strict_iff_order)
  qed
qed


text \<open>
  Claim C6, as amended. With fewer than two stored weeks \<open>getStats\<close> fails with the
  \<open>TypeError\<close> of reading a field of a missing row, the failure it also has on the
  missing peak row of an empty table, and it never returns the only row; no
  \<open>InsufficientData\<close> condition exists. With two or more weeks (of distinct keys) the
  last complete week is the second most recent row by (year, week): exactly one stored
  week is later.

  As stated the claim fails: on a table of one week the failure is the \<open>TypeError\<close>.
\<close>

theorem last_complete_week:
  "(length ws < 2 \<longrightarrow> getStats ws ps = Inl TypeError)
   \<and> (2 \<le> length ws \<and> distinct (map row_key ws) \<longrightarrow>
        (\<exists>m r resp. lastCompleteWeekRow ws = Some r \<and> m \<in> set ws \<and> r \<in> set ws
            \<and> row_key r < row_key m
            \<and> (\<forall>x \<in> set ws. x = m \<or> x = r \<or> row_key x < row_key r)
            \<and> getStats ws ps = Inr resp
            \<and> lastCompleteWeekUsers (summary resp) = total_users r
            \<and> lastCompleteWeekDate (summary resp) = week_start r))
   \<and> getStats ws ps \<noteq> Inl InsufficientData"
proof -
  have "\<exists>m r resp. lastCompleteWeekRow ws = Some r \<and> m \<in> set ws \<and> r \<in> set ws
            \<and> row_key r < row_key m
            \<and> (\<forall>x \<in> set ws. x = m \<or> x = r \<or> row_key x < row_key r)
            \<and> getStats ws ps = Inr resp
            \<and> lastCompleteWeekUsers (summary resp) = total_users r
            \<and> lastCompleteWeekDate (summary resp) = week_start r"
    if len: "2 \<le> length ws" and d: "distinct (map row_key ws)"
  proof -
    from len d obtain m r where l: "lastCompleteWeekRow ws = Some r" and "m \<in> set ws" "r \<in> set ws"
      "row_key r < row_key m" "\<forall>x \<in> set ws. x = m \<or> x = r \<or> row_key x < row_key r"
      by (rule lastCompleteWeekRow_second)
    moreover from len have "ws \<noteq> []" by auto
    then obtain p where p: "peakRow ws = Some p" using peakRow_nonempty by blast
    have "\<exists>resp. getStats ws ps = Inr resp
            \<and> lastCompleteWeekUsers (summary resp) = total_users r
            \<and> lastCompleteWeekDate (summary resp) = week_start r"
      by (simp add: getStats_def Let_def l p)
    ultimately show ?thesis by blast
  qed
  then show ?thesis
    using getStats_short [of ws ps] getStats_never_insufficient [of ws ps] by blast
qed


theorem last_complete_week_witness:
  "length only_week < 2 \<and> getStats only_week [] = Inl TypeError
   \<and> 2 \<le> length scenario_weeks \<and> distinct (map row_key scenario_weeks)
   \<and> lastCompleteWeekRow scenario_weeks = Some (low_week 2024 2 (2024, 1, 8) 150)
   \<and> (\<exists>resp. getStats scenario_weeks [] = Inr resp
         \<and> lastCompleteWeekUsers (summary resp) = 150
         \<and> lastCompleteWeekDate (summary resp) = (2024, 1, 8))"
proof -
  have l: "length only_week < 2" "2 \<le> length scenario_weeks"
    by (simp_all add: only_week_def scenario_weeks_def)
  have d: "distinct (map row_key scenario_weeks)"
    by (simp add: scenario_weeks_def low_week_def row_key_def)
  have r: "lastCompleteWeekRow scenario_weeks = Some (low_week 2024 2 (2024, 1, 8) 150)"
    by code_simp
  have u: "total_users (low_week 2024 2 (2024, 1, 8) 150) = 150"
    "week_start (low_week 2024 2 (2024, 1, 8) 150) = (2024, 1, 8)"
    by (simp_all add: low_week_def)
  from last_complete_week [of only_week "[]"] last_complete_week [of scenario_weeks "[]"] l d r u
  show ?thesis by auto
qed

theorem last_complete_week_counterexample:
  "length only_week = 1
   \<and> getStats only_week [] = Inl TypeError
   \<and> getStats only_week [] \<noteq> Inl InsufficientData
   \<and> getStats [] [] = Inl TypeError"
  by (simp add: only_week_def getStats_short)


section \<open>The activity distribution\<close>











end
